theory Spec2Isabelle
  imports Main "HOL-Library.Word"
begin

section \<open>JavaScript strings\<close>

text \<open>
  A JavaScript string is a sequence of 16-bit code units. String literals of the
  source are written with \<open>js\<close>, which maps each ASCII character to its code unit.
\<close>

type_synonym js_char = "16 word"
type_synonym js_string = "js_char list"

definition js :: "string \<Rightarrow> js_string" where
  "js s = map of_char s"

definition NL :: js_char where "NL = 0x0A"
definition SPACE :: js_char where "SPACE = 0x20"
definition SLASH :: js_char where "SLASH = 0x2F"
definition STAR :: js_char where "STAR = 0x2A"
definition BACKTICK :: js_char where "BACKTICK = 0x60"

text \<open>
  ECMAScript \<open>LineTerminator\<close>: LF, CR, LS, PS. The regular-expression atom \<open>.\<close>
  (no \<open>s\<close> flag) matches every code unit that is not one of them.
\<close>

definition is_line_terminator :: "js_char \<Rightarrow> bool" where
  "is_line_terminator c \<longleftrightarrow> c = 0x0A \<or> c = 0x0D \<or> c = 0x2028 \<or> c = 0x2029"

text \<open>
  The class \<open>\s\<close>, which is also the set \<open>String.prototype.trim\<close> strips:
  ECMAScript \<open>WhiteSpace\<close> (TAB, VT, FF, SP, NBSP, ZWNBSP and the Unicode space
  separators) together with \<open>LineTerminator\<close>.
\<close>

definition is_space :: "js_char \<Rightarrow> bool" where
  "is_space c \<longleftrightarrow>
     c = 0x09 \<or> c = 0x0A \<or> c = 0x0B \<or> c = 0x0C \<or> c = 0x0D \<or> c = 0x20 \<or>
     c = 0xA0 \<or> c = 0x1680 \<or>
     c = 0x2000 \<or> c = 0x2001 \<or> c = 0x2002 \<or> c = 0x2003 \<or> c = 0x2004 \<or> c = 0x2005 \<or>
     c = 0x2006 \<or> c = 0x2007 \<or> c = 0x2008 \<or> c = 0x2009 \<or> c = 0x200A \<or>
     c = 0x2028 \<or> c = 0x2029 \<or> c = 0x202F \<or> c = 0x205F \<or> c = 0x3000 \<or> c = 0xFEFF"

definition dot :: "js_char \<Rightarrow> bool" where
  "dot c \<longleftrightarrow> \<not> is_line_terminator c"

text \<open>The class \<open>[\s\S]\<close>: every code unit.\<close>

definition any_char :: "js_char \<Rightarrow> bool" where
  "any_char c \<longleftrightarrow> True"

text \<open>\<open>String.prototype.trim\<close>.\<close>

definition trim :: "js_string \<Rightarrow> js_string" where
  "trim s = rev (dropWhile is_space (rev (dropWhile is_space s)))"

fun starts_with :: "js_string \<Rightarrow> js_string \<Rightarrow> bool" where
  "starts_with [] s = True"
| "starts_with (p # ps) [] = False"
| "starts_with (p # ps) (c # cs) = (p = c \<and> starts_with ps cs)"

text \<open>\<open>String.prototype.includes\<close>.\<close>

fun includes_str :: "js_string \<Rightarrow> js_string \<Rightarrow> bool" where
  "includes_str [] sub = (sub = [])"
| "includes_str (c # cs) sub = (starts_with sub (c # cs) \<or> includes_str cs sub)"

section \<open>Regular expressions\<close>

text \<open>
  The fragment of ECMAScript regular expressions the source uses: the empty pattern, single
  code units and classes, sequence, alternation, the greedy and the lazy star over a
  class, and the assertion \<open>^\<close> under the \<open>m\<close> flag. The matcher is the
  backtracking matcher of the language definition, in continuation-passing style:
  it is given the code unit before the current position (for \<open>^\<close>), the rest of the
  input, and the continuation that matches what follows; the first alternative that
  lets the continuation succeed wins.
\<close>

datatype regex =
    Empty
  | Chr js_char
  | Cls "js_char \<Rightarrow> bool"
  | Bol
  | Seq regex regex
  | Alt regex regex
  | Star "js_char \<Rightarrow> bool"
  | LazyStar "js_char \<Rightarrow> bool"

type_synonym position = "js_char option \<times> js_string"
type_synonym continuation = "js_char option \<Rightarrow> js_string \<Rightarrow> position option"

fun rmatch :: "regex \<Rightarrow> js_char option \<Rightarrow> js_string \<Rightarrow> continuation \<Rightarrow> position option" where
  "rmatch Empty prev s k = k prev s"
| "rmatch (Chr a) prev [] k = None"
| "rmatch (Chr a) prev (c # cs) k = (if c = a then k (Some c) cs else None)"
| "rmatch (Cls p) prev [] k = None"
| "rmatch (Cls p) prev (c # cs) k = (if p c then k (Some c) cs else None)"
| "rmatch Bol None s k = k None s"
| "rmatch Bol (Some c) s k = (if is_line_terminator c then k (Some c) s else None)"
| "rmatch (Seq a b) prev s k = rmatch a prev s (\<lambda>prev' s'. rmatch b prev' s' k)"
| "rmatch (Alt a b) prev s k =
     (case rmatch a prev s k of Some r \<Rightarrow> Some r | None \<Rightarrow> rmatch b prev s k)"
| "rmatch (Star p) prev [] k = k prev []"
| "rmatch (Star p) prev (c # cs) k =
     (if p c then
        (case rmatch (Star p) (Some c) cs k of Some r \<Rightarrow> Some r | None \<Rightarrow> k prev (c # cs))
      else k prev (c # cs))"
| "rmatch (LazyStar p) prev [] k = k prev []"
| "rmatch (LazyStar p) prev (c # cs) k =
     (case k prev (c # cs) of Some r \<Rightarrow> Some r
      | None \<Rightarrow> if p c then rmatch (LazyStar p) (Some c) cs k else None)"

text \<open>A match attempt at the current position: the position after the match.\<close>

definition regex_exec :: "regex \<Rightarrow> js_char option \<Rightarrow> js_string \<Rightarrow> position option" where
  "regex_exec r prev s = rmatch r prev s (\<lambda>prev' s'. Some (prev', s'))"

text \<open>\<open>c+\<close> over a class, and a literal string.\<close>

definition Plus :: "(js_char \<Rightarrow> bool) \<Rightarrow> regex" where
  "Plus p = Seq (Cls p) (Star p)"

fun Str :: "js_string \<Rightarrow> regex" where
  "Str [] = Empty"
| "Str (c # cs) = Seq (Chr c) (Str cs)"

text \<open>
  \<open>String.prototype.replace\<close> with a regular expression without the \<open>g\<close> flag:
  the leftmost position where the expression matches is found and that one match is
  replaced.
\<close>

fun replace_first :: "regex \<Rightarrow> js_string \<Rightarrow> js_char option \<Rightarrow> js_string \<Rightarrow> js_string" where
  "replace_first r rep prev [] =
     (case regex_exec r prev [] of Some (prev', rest) \<Rightarrow> rep @ rest | None \<Rightarrow> [])"
| "replace_first r rep prev (c # cs) =
     (case regex_exec r prev (c # cs) of
        Some (prev', rest) \<Rightarrow> rep @ rest
      | None \<Rightarrow> c # replace_first r rep (Some c) cs)"

text \<open>
  With the \<open>g\<close> flag every match is replaced, the search resuming where the previous
  match ended; after an empty match the search resumes one code unit further and
  that code unit is copied.
\<close>

function replace_all :: "regex \<Rightarrow> js_string \<Rightarrow> js_char option \<Rightarrow> js_string \<Rightarrow> js_string" where
  "replace_all r rep prev s =
     (case regex_exec r prev s of
        Some (prev', rest) \<Rightarrow>
          if length rest < length s then rep @ replace_all r rep prev' rest
          else rep @ (case s of [] \<Rightarrow> [] | c # cs \<Rightarrow> c # replace_all r rep (Some c) cs)
      | None \<Rightarrow> (case s of [] \<Rightarrow> [] | c # cs \<Rightarrow> c # replace_all r rep (Some c) cs))"
  by pat_completeness auto
termination
  by (relation "measure (\<lambda>(r, rep, prev, s). length s)") auto

declare replace_all.simps [simp del]

section \<open>The code normalizer\<close>

text \<open>
  \<^verbatim>\<open>/\/\*[\s\S]*?\*\/|\/\/.*/g\<close> and \<^verbatim>\<open>/\s+/g\<close> of \<open>normalizeCode\<close>.
\<close>

definition comment_regex :: regex where
  "comment_regex =
     Alt (Seq (Chr SLASH) (Seq (Chr STAR) (Seq (LazyStar any_char) (Seq (Chr STAR) (Chr SLASH)))))
         (Seq (Chr SLASH) (Seq (Chr SLASH) (Star dot)))"

definition spaces_regex :: regex where
  "spaces_regex = Plus is_space"

definition normalizeCode :: "js_string \<Rightarrow> js_string" where
  "normalizeCode code =
     (let noComments = replace_all comment_regex [] None code
      in trim (replace_all spaces_regex [SPACE] None noComments))"

section \<open>The preview renderer\<close>

definition INITIAL_CODE_lines :: "string list" where
  \<open>INITIAL_CODE_lines =
    [''function setup() {'',
     ''  createCanvas(400, 400);'',
     ''}'',
     '''',
     ''function draw() {'',
     ''  background(220);'',
     ''  ellipse(mouseX, mouseY, 50, 50);'',
     ''}'']\<close>

text \<open>The lines of a template literal, joined by line feeds.\<close>

fun unlines :: "string list \<Rightarrow> js_string" where
  "unlines [] = []"
| "unlines [l] = js l"
| "unlines (l # m # ls) = js l @ NL # unlines (m # ls)"

definition INITIAL_CODE :: js_string where
  "INITIAL_CODE = unlines INITIAL_CODE_lines"

text \<open>The template literal of \<open>getIframeContent\<close>, before and after \<^verbatim>\<open>${userCode}\<close>.\<close>

definition iframe_head_lines :: "string list" where
  \<open>iframe_head_lines =
    ['''',
     ''<!DOCTYPE html>'',
     ''<html>'',
     ''  <head>'',
     ''    <script src="https://cdnjs.cloudflare.com/ajax/libs/p5.js/1.4.0/p5.js"></script>'',
     ''    <style>'',
     ''      body { '',
     ''        margin: 0; '',
     ''        padding: 0;'',
     ''        display: flex;'',
     ''        justify-content: center;'',
     ''        align-items: center;'',
     ''        min-height: 100vh;'',
     ''      }'',
     ''      main {'',
     ''        display: block;'',
     ''        margin: 0 auto;'',
     ''      }'',
     ''      .error {'',
     ''        color: red;'',
     ''        font-family: monospace;'',
     ''        white-space: pre-wrap;'',
     ''        padding: 10px;'',
     ''      }'',
     ''    </style>'',
     ''  </head>'',
     ''  <body>'',
     ''    <script>'',
     ''      // Error handling'',
     ''      window.onerror = function(msg, url, lineNo, columnNo, error) {'',
     ''        document.body.innerHTML = '<div class="error">Error: ' + msg + '</div>';'',
     ''        return false;'',
     ''      };'',
     '''',
     ''      window.console.error = function(...args) {'',
     ''        document.body.innerHTML = '<div class="error">Error: ' + args.join(' ') + '</div>';'',
     ''      };'',
     '''',
     ''      // Update message handler for screenshot'',
     ''      window.addEventListener('message', function(event) {'',
     ''        if (event.data.type === 'takeScreenshot') {'',
     ''          const canvas = document.querySelector('canvas');'',
     ''          if (canvas) {'',
     ''            const dataUrl = canvas.toDataURL('image/png');'',
     ''            window.parent.postMessage({ type: 'screenshot', data: dataUrl }, '*');'',
     ''          }'',
     ''        }'',
     ''      });'',
     '''',
     ''      // User code'',
     ''      '']\<close>

definition iframe_tail_lines :: "string list" where
  \<open>iframe_tail_lines =
    ['''',
     ''    </script>'',
     ''  </body>'',
     ''</html>'',
     '''']\<close>

definition getIframeContent :: "js_string \<Rightarrow> js_string" where
  "getIframeContent userCode = unlines iframe_head_lines @ userCode @ unlines iframe_tail_lines"

text \<open>
  What \<open>updatePreview\<close> reads and writes besides the \<open>code\<close> its closure holds:
  the \<open>normalizedCode\<close> state, whether \<open>iframeRef.current\<close> is set, the frame's
  \<open>srcdoc\<close>, and a counter of the assignments to \<open>srcdoc\<close>.
\<close>

record preview =
  normalizedCode :: js_string
  iframe_mounted :: bool
  srcdoc :: js_string
  assignments :: nat

text \<open>\<open>updatePreview\<close> of the editor that calls the proxy route.\<close>

definition updatePreview :: "js_string \<Rightarrow> preview \<Rightarrow> preview" where
  "updatePreview code st =
     (let newNormalizedCode = normalizeCode code in
      if newNormalizedCode \<noteq> normalizedCode st then
        (let st1 = st\<lparr>normalizedCode := newNormalizedCode\<rparr> in
         if iframe_mounted st1
         then st1\<lparr>srcdoc := getIframeContent code, assignments := Suc (assignments st1)\<rparr>
         else st1)
      else st)"

text \<open>
  \<open>updatePreview\<close> of the editor that calls the vendor library directly. That
  editor has no \<open>normalizeCode\<close> and no \<open>normalizedCode\<close> state; the field is
  left as it is.
\<close>

definition updatePreview_direct :: "js_string \<Rightarrow> preview \<Rightarrow> preview" where
  "updatePreview_direct code st =
     (if iframe_mounted st
      then st\<lparr>srcdoc := getIframeContent code, assignments := Suc (assignments st)\<rparr>
      else st)"

text \<open>
  The state after mounting: \<open>normalizedCode\<close> starts as the normalized initial
  code, so the first run of the effect changes nothing, and the initial load effect
  assigns the frame once.
\<close>

definition initial_preview :: preview where
  "initial_preview =
     \<lparr>normalizedCode = normalizeCode INITIAL_CODE, iframe_mounted = True,
      srcdoc = getIframeContent INITIAL_CODE, assignments = 1\<rparr>"

text \<open>
  Every change of \<open>code\<close> re-runs the effect, which calls the \<open>updatePreview\<close> of
  the render that holds the new code. A sequence of edits is the sequence of those
  calls.
\<close>

definition edits :: "js_string list \<Rightarrow> preview \<Rightarrow> preview" where
  "edits cs st = fold updatePreview cs st"

definition edits_direct :: "js_string list \<Rightarrow> preview \<Rightarrow> preview" where
  "edits_direct cs st = fold updatePreview_direct cs st"

section \<open>Fence extraction\<close>

definition FENCE :: js_string where
  "FENCE = [BACKTICK, BACKTICK, BACKTICK]"

text \<open>
  \<open>String.prototype.split\<close> with a string separator: the separator is searched from
  left to right, each occurrence ends a segment and the search resumes after it.
\<close>

function split_on :: "js_string \<Rightarrow> js_string \<Rightarrow> js_string list" where
  "split_on sep [] = [[]]"
| "split_on sep (c # cs) =
     (if sep \<noteq> [] \<and> starts_with sep (c # cs)
      then [] # split_on sep (drop (length sep) (c # cs))
      else (case split_on sep cs of [] \<Rightarrow> [[c]] | x # xs \<Rightarrow> (c # x) # xs))"
  by pat_completeness auto
termination
  by (relation "measure (\<lambda>(sep, s). length s)") auto

definition split_str :: "js_string \<Rightarrow> js_string \<Rightarrow> js_string list" where
  "split_str s sep = (if sep = [] then map (\<lambda>c. [c]) s else split_on sep s)"

text \<open>\<open>Array.prototype.filter\<close> with a callback that also takes the index.\<close>

definition filter_indexed :: "('a \<Rightarrow> nat \<Rightarrow> bool) \<Rightarrow> 'a list \<Rightarrow> 'a list" where
  "filter_indexed f xs = map fst (filter (\<lambda>(x, i). f x i) (zip xs [0..<length xs]))"

text \<open>\<open>Array.prototype.join\<close>.\<close>

fun join_str :: "js_string list \<Rightarrow> js_string \<Rightarrow> js_string" where
  "join_str [] sep = []"
| "join_str [x] sep = x"
| "join_str (x # y # ys) sep = x @ sep @ join_str (y # ys) sep"

text \<open>\<^verbatim>\<open>/^javascript\n/m\<close>\<close>

definition TAG :: js_string where
  "TAG = js ''javascript'' @ [NL]"

definition tag_regex :: regex where
  "tag_regex = Seq Bol (Str TAG)"

text \<open>
  The post-processing of the generated text, the same in the proxy route and in the
  editor that calls the vendor library directly.
\<close>

definition extract_fenced :: "js_string \<Rightarrow> js_string" where
  "extract_fenced generatedCode =
     (if includes_str generatedCode FENCE then
        trim (replace_first tag_regex [] None
          (join_str (filter_indexed (\<lambda>block index. index mod 2 = 1) (split_str generatedCode FENCE)) [NL]))
      else generatedCode)"

section \<open>The generation proxy\<close>

datatype js_error = Error (message: js_string)

text \<open>
  The body of the request, \<^verbatim>\<open>{prompt, modelName, temperature}\<close>; the temperature is
  kept as the text of the JSON number.
\<close>

record gen_request =
  req_prompt :: js_string
  req_modelName :: js_string
  req_temperature :: js_string

datatype payload = Code_payload js_string | Error_payload js_string

record http_response =
  status :: nat
  body :: payload
  server_log :: "js_error list"

text \<open>
  \<open>POST\<close>. Its inputs are the outcome of \<^verbatim>\<open>await request.json()\<close> and the vendor
  library (\<open>getGenerativeModel\<close>, \<open>startChat\<close>, \<open>sendMessage\<close>, \<open>response.text()\<close>),
  which either throws or gives the response text. Everything runs inside one
  \<open>try\<close>; the \<open>catch\<close> logs the error and answers with its message and status 500.
\<close>

definition POST :: "js_error + gen_request \<Rightarrow> (gen_request \<Rightarrow> js_error + js_string) \<Rightarrow> http_response" where
  "POST request_json vendor =
     (case request_json of
        Inl error \<Rightarrow> \<lparr>status = 500, body = Error_payload (message error), server_log = [error]\<rparr>
      | Inr rq \<Rightarrow>
          (case vendor rq of
             Inl error \<Rightarrow> \<lparr>status = 500, body = Error_payload (message error), server_log = [error]\<rparr>
           | Inr generatedCode \<Rightarrow>
               \<lparr>status = 200, body = Code_payload (extract_fenced generatedCode), server_log = []\<rparr>))"

section \<open>The generation client\<close>

text \<open>A JavaScript value that is a string or \<open>undefined\<close> (\<open>None\<close>).\<close>

type_synonym js_value = "js_string option"

fun data_error :: "payload \<Rightarrow> js_value" where
  "data_error (Code_payload c) = None"
| "data_error (Error_payload m) = Some m"

fun data_code :: "payload \<Rightarrow> js_value" where
  "data_code (Code_payload c) = Some c"
| "data_code (Error_payload m) = None"

text \<open>The truth value of such a value in a condition: a non-empty string.\<close>

fun truthy :: "js_value \<Rightarrow> bool" where
  "truthy None = False"
| "truthy (Some s) = (s \<noteq> [])"

text \<open>\<^verbatim>\<open>new Error(message)\<close>; an \<open>undefined\<close> message gives the empty one.\<close>

fun new_Error :: "js_value \<Rightarrow> js_error" where
  "new_Error None = Error []"
| "new_Error (Some m) = Error m"

text \<open>
  What the awaited part of \<open>generateCode\<close> gives: \<open>fetch\<close> or \<open>response.json()\<close>
  rejects, or the parsed payload.
\<close>

datatype fetch_outcome = Rejected js_error | Resolved payload

text \<open>
  \<open>generateCode\<close> is created by \<open>useCallback\<close> in a render and reads the constants
  of that render: \<open>isGenerating\<close>, \<open>selectedModel\<close>, \<open>temperature\<close>, \<open>prompt\<close>,
  \<open>autoGenerate\<close>. The timer callback \<^verbatim>\<open>() => { generateCode(); }\<close> calls the
  \<open>generateCode\<close> of the render that scheduled it.
\<close>

record closure =
  cl_isGenerating :: bool
  cl_selectedModel :: js_string
  cl_temperature :: js_string
  cl_prompt :: js_string
  cl_autoGenerate :: bool

record editor =
  code :: js_value
  prompt :: js_string
  selectedModel :: js_string
  temperature :: js_string
  isGenerating :: bool
  autoGenerate :: bool
  console :: "js_error list"
  requests :: "gen_request list"
  in_flight :: "closure list"
  timers :: "closure list"

text \<open>The callback of the current render.\<close>

definition render :: "editor \<Rightarrow> closure" where
  "render st =
     \<lparr>cl_isGenerating = isGenerating st, cl_selectedModel = selectedModel st,
      cl_temperature = temperature st, cl_prompt = prompt st,
      cl_autoGenerate = autoGenerate st\<rparr>"

text \<open>
  \<open>generateCode\<close> up to the \<open>await\<close>: the guard, \<open>setIsGenerating(true)\<close> and the
  request, which is recorded in \<open>requests\<close>; the call then waits in \<open>in_flight\<close>.
  The body carries \<^verbatim>\<open>parseFloat(temperature)\<close>. The parse and the number are floating
  point and are not interpreted here: \<open>parseFloat\<close>, from the temperature to the JSON
  text of the parsed number, is a parameter.
\<close>

definition generateCode_call :: "(js_string \<Rightarrow> js_string) \<Rightarrow> closure \<Rightarrow> editor \<Rightarrow> editor" where
  "generateCode_call parseFloat cl st =
     (if cl_isGenerating cl then st
      else st\<lparr>isGenerating := True,
              requests := requests st @
                [\<lparr>req_prompt = cl_prompt cl, req_modelName = cl_selectedModel cl,
                  req_temperature = parseFloat (cl_temperature cl)\<rparr>],
              in_flight := in_flight st @ [cl]\<rparr>)"

text \<open>
  \<open>generateCode\<close> after the \<open>await\<close>: the rest of the \<open>try\<close> block, the \<open>catch\<close>
  and the \<open>finally\<close>.
\<close>

definition generateCode_settle :: "closure \<Rightarrow> fetch_outcome \<Rightarrow> editor \<Rightarrow> editor" where
  "generateCode_settle cl outcome st =
     (let st1 =
        (case outcome of
           Rejected error \<Rightarrow> st\<lparr>console := console st @ [error]\<rparr>
         | Resolved data \<Rightarrow>
             if truthy (data_error data)
             then st\<lparr>console := console st @ [new_Error (data_error data)]\<rparr>
             else st\<lparr>code := data_code data,
                     timers := (if cl_autoGenerate cl then timers st @ [cl] else timers st)\<rparr>)
      in st1\<lparr>isGenerating := False\<rparr>)"

text \<open>
  The events of the editor: the user asks for a generation (the button, disabled
  while \<open>isGenerating\<close>, or Enter, ignored while \<open>isGenerating\<close>; both call the
  \<open>generateCode\<close> of the current render), the user toggles auto-generate, a
  scheduled timer fires, an in-flight request settles.
\<close>

datatype event =
    Generate
  | Toggle_autoGenerate
  | Timer_fires nat
  | Settles nat fetch_outcome

definition remove_nth :: "nat \<Rightarrow> 'a list \<Rightarrow> 'a list" where
  "remove_nth i xs = take i xs @ drop (Suc i) xs"

fun step :: "(js_string \<Rightarrow> js_string) \<Rightarrow> event \<Rightarrow> editor \<Rightarrow> editor" where
  "step parseFloat Generate st = generateCode_call parseFloat (render st) st"
| "step parseFloat Toggle_autoGenerate st = st\<lparr>autoGenerate := \<not> autoGenerate st\<rparr>"
| "step parseFloat (Timer_fires i) st =
     (if i < length (timers st)
      then generateCode_call parseFloat (timers st ! i) (st\<lparr>timers := remove_nth i (timers st)\<rparr>)
      else st)"
| "step parseFloat (Settles i outcome) st =
     (if i < length (in_flight st)
      then generateCode_settle (in_flight st ! i) outcome (st\<lparr>in_flight := remove_nth i (in_flight st)\<rparr>)
      else st)"

definition run :: "(js_string \<Rightarrow> js_string) \<Rightarrow> event list \<Rightarrow> editor \<Rightarrow> editor" where
  "run parseFloat es st = fold (step parseFloat) es st"

definition initial_editor :: editor where
  "initial_editor =
     \<lparr>code = Some INITIAL_CODE, prompt = [], selectedModel = js ''gemini-2.0-flash'',
      temperature = js ''1'', isGenerating = False, autoGenerate = False, console = [],
      requests = [], in_flight = [], timers = []\<rparr>"

section \<open>The operations as the specification words them\<close>

text \<open>
  The normalizer in the specification's words: remove the block comments and the
  line comments, collapse each run of whitespace to one space, trim. A block comment
  runs from \<open>/*\<close> to the first \<open>*/\<close> after it; \<open>find_close\<close> gives the text after
  that \<open>*/\<close>. A line comment runs from \<open>//\<close> to the end of the line.
\<close>

fun find_close :: "js_string \<Rightarrow> js_string option" where
  "find_close (c # d # cs) = (if c = STAR \<and> d = SLASH then Some cs else find_close (d # cs))"
| "find_close cs = None"

function strip_comments :: "js_string \<Rightarrow> js_string" where
  "strip_comments (c # d # cs) =
     (if c = SLASH \<and> d = STAR then
        (case find_close cs of
           Some rest \<Rightarrow> strip_comments rest
         | None \<Rightarrow> c # strip_comments (d # cs))
      else if c = SLASH \<and> d = SLASH then strip_comments (dropWhile dot cs)
      else c # strip_comments (d # cs))"
| "strip_comments [c] = [c]"
| "strip_comments [] = []"
  by pat_completeness auto
termination
proof (relation "measure length")
  fix c d :: js_char and cs rest :: js_string
  assume "find_close cs = Some rest"
  then have "length rest < length cs"
    by (induction cs rule: find_close.induct) (auto split: if_splits)
  then show "(rest, c # d # cs) \<in> measure length"
    by simp
next
  fix c d :: js_char and cs :: js_string
  show "(dropWhile dot cs, c # d # cs) \<in> measure length"
    using length_dropWhile_le [of dot cs] by simp
qed auto

function collapse_spaces :: "js_string \<Rightarrow> js_string" where
  "collapse_spaces [] = []"
| "collapse_spaces (c # cs) =
     (if is_space c then SPACE # collapse_spaces (dropWhile is_space cs)
      else c # collapse_spaces cs)"
  by pat_completeness auto
termination
proof (relation "measure length")
  fix c :: js_char and cs :: js_string
  show "(dropWhile is_space cs, c # cs) \<in> measure length"
    using length_dropWhile_le [of is_space cs] by simp
qed auto

definition spec_normalize :: "js_string \<Rightarrow> js_string" where
  "spec_normalize s = trim (collapse_spaces (strip_comments s))"

text \<open>
  A string holds a line comment when \<open>//\<close> occurs in it, a block comment when
  \<open>/*\<close> occurs with a \<open>*/\<close> after it, and consecutive whitespace when two
  whitespace code units are adjacent.
\<close>

fun has_line_comment :: "js_string \<Rightarrow> bool" where
  "has_line_comment (c # d # cs) = ((c = SLASH \<and> d = SLASH) \<or> has_line_comment (d # cs))"
| "has_line_comment cs = False"

fun has_block_comment :: "js_string \<Rightarrow> bool" where
  "has_block_comment (c # d # cs) =
     ((c = SLASH \<and> d = STAR \<and> find_close cs \<noteq> None) \<or> has_block_comment (d # cs))"
| "has_block_comment cs = False"

fun has_double_space :: "js_string \<Rightarrow> bool" where
  "has_double_space (c # d # cs) = ((is_space c \<and> is_space d) \<or> has_double_space (d # cs))"
| "has_double_space cs = False"

text \<open>
  The source the frame shows after a sequence of edits, in the specification's words:
  the last one whose normalized form differed from that of the one rendered before.
\<close>

fun last_rendered :: "js_string \<Rightarrow> js_string list \<Rightarrow> js_string" where
  "last_rendered r [] = r"
| "last_rendered r (c # cs) =
     (if normalizeCode c \<noteq> normalizeCode r then last_rendered c cs else last_rendered r cs)"

text \<open>How many edits of the sequence were such.\<close>

fun render_count :: "js_string \<Rightarrow> js_string list \<Rightarrow> nat" where
  "render_count r [] = 0"
| "render_count r (c # cs) =
     (if normalizeCode c \<noteq> normalizeCode r then Suc (render_count c cs) else render_count r cs)"

text \<open>The segments at odd indices.\<close>

fun odd_segments :: "'a list \<Rightarrow> 'a list" where
  "odd_segments (x # y # zs) = y # odd_segments zs"
| "odd_segments xs = []"

text \<open>
  Two readings of the removal of the language tag. The first removes the tag line
  only where it leads the joined text. The second removes the first tag line that
  starts a line, wherever that line is.
\<close>

definition strip_leading_tag :: "js_string \<Rightarrow> js_string" where
  "strip_leading_tag t = (if starts_with TAG t then drop (length TAG) t else t)"

definition at_line_start :: "js_char option \<Rightarrow> bool" where
  "at_line_start prev = (case prev of None \<Rightarrow> True | Some c \<Rightarrow> is_line_terminator c)"

fun strip_first_tag_line :: "js_char option \<Rightarrow> js_string \<Rightarrow> js_string" where
  "strip_first_tag_line prev [] = []"
| "strip_first_tag_line prev (c # cs) =
     (if at_line_start prev \<and> starts_with TAG (c # cs) then drop (length TAG) (c # cs)
      else c # strip_first_tag_line (Some c) cs)"

definition spec_extract_leading :: "js_string \<Rightarrow> js_string" where
  "spec_extract_leading text =
     trim (strip_leading_tag (join_str (odd_segments (split_str text FENCE)) [NL]))"

definition spec_extract :: "js_string \<Rightarrow> js_string" where
  "spec_extract text =
     trim (strip_first_tag_line None (join_str (odd_segments (split_str text FENCE)) [NL]))"

section \<open>The normalizer meets its specification\<close>

subsection \<open>The regular expressions of the normalizer\<close>

lemma find_close_length: "find_close s = Some r \<Longrightarrow> length r < length s"
  by (induction s rule: find_close.induct) (auto split: if_splits)

lemma star_exec:
  "\<exists>q. rmatch (Star p) prev s (\<lambda>prev' s'. Some (prev', s')) = Some (q, dropWhile p s)"
proof (induction s arbitrary: prev)
  case Nil
  show ?case by simp
next
  case (Cons a s)
  obtain q where q: "rmatch (Star p) (Some a) s (\<lambda>prev' s'. Some (prev', s')) = Some (q, dropWhile p s)"
    using Cons by blast
  show ?case
  proof (cases "p a")
    case True
    then show ?thesis using q by simp
  next
    case False
    then show ?thesis by simp
  qed
qed

lemma lazy_close:
  "rmatch (LazyStar any_char) prev s
      (\<lambda>p1 s1. rmatch (Chr STAR) p1 s1
         (\<lambda>p2 s2. rmatch (Chr SLASH) p2 s2 (\<lambda>prev' s'. Some (prev', s'))))
   = map_option (Pair (Some SLASH)) (find_close s)"
proof (induction s arbitrary: prev rule: find_close.induct)
  case (1 c d cs)
  then show ?case by (auto simp: any_char_def split: list.splits)
qed (simp_all add: any_char_def)

lemma comment_exec:
  "regex_exec comment_regex prev s =
     (case s of
        c # d # cs \<Rightarrow>
          if c = SLASH \<and> d = STAR then map_option (Pair (Some SLASH)) (find_close cs)
          else if c = SLASH \<and> d = SLASH
          then rmatch (Star dot) (Some d) cs (\<lambda>prev' s'. Some (prev', s'))
          else None
      | _ \<Rightarrow> None)"
  using lazy_close
  by (auto simp: regex_exec_def comment_regex_def SLASH_def STAR_def
        split: list.splits option.splits)

lemma replace_comments: "replace_all comment_regex [] prev s = strip_comments s"
proof (induction s arbitrary: prev rule: strip_comments.induct)
  case (1 c d cs)
  obtain q where q: "rmatch (Star dot) (Some d) cs (\<lambda>prev' s'. Some (prev', s')) = Some (q, dropWhile dot cs)"
    using star_exec by blast
  have len: "length (dropWhile dot cs) < Suc (Suc (length cs))"
    using length_dropWhile_le [of dot cs] by simp
  show ?case
    using 1 q len
    by (subst replace_all.simps)
       (auto simp: comment_exec SLASH_def STAR_def dest: find_close_length split: option.splits)
next
  case (2 c)
  show ?case
    by (subst replace_all.simps, simp add: comment_exec, subst replace_all.simps,
        simp add: comment_exec)
next
  case 3
  show ?case by (subst replace_all.simps) (simp add: comment_exec)
qed

lemma spaces_exec_Nil: "regex_exec spaces_regex prev [] = None"
  by (simp add: regex_exec_def spaces_regex_def Plus_def)

lemma spaces_exec_Cons:
  "\<exists>q. regex_exec spaces_regex prev (c # cs) =
     (if is_space c then Some (q, dropWhile is_space cs) else None)"
proof -
  obtain q where "rmatch (Star is_space) (Some c) cs (\<lambda>prev' s'. Some (prev', s')) = Some (q, dropWhile is_space cs)"
    using star_exec by blast
  then show ?thesis
    by (auto simp: regex_exec_def spaces_regex_def Plus_def)
qed

lemma replace_spaces: "replace_all spaces_regex [SPACE] prev s = collapse_spaces s"
proof (induction s arbitrary: prev rule: collapse_spaces.induct)
  case 1
  show ?case by (subst replace_all.simps) (simp add: spaces_exec_Nil)
next
  case (2 c cs)
  obtain q where q: "regex_exec spaces_regex prev (c # cs) =
     (if is_space c then Some (q, dropWhile is_space cs) else None)"
    using spaces_exec_Cons by blast
  have len: "length (dropWhile is_space cs) < Suc (length cs)"
    using length_dropWhile_le [of is_space cs] by simp
  show ?case
    using 2 q len by (subst replace_all.simps) simp
qed

lemma normalizeCode_spec: "normalizeCode s = spec_normalize s"
  by (simp add: normalizeCode_def spec_normalize_def replace_comments replace_spaces)

subsection \<open>What stripping comments leaves\<close>

lemma strip_keep: "c \<noteq> SLASH \<Longrightarrow> strip_comments (c # cs) = c # strip_comments cs"
  by (cases cs) simp_all

lemma find_close_skip: "c \<noteq> STAR \<Longrightarrow> find_close (c # s) = find_close s"
  by (cases s) simp_all

lemma find_close_tl: "find_close (c # s) = None \<Longrightarrow> find_close s = None"
  by (cases s) (auto split: if_splits)

lemma find_close_dropWhile: "find_close s = None \<Longrightarrow> find_close (dropWhile p s) = None"
  by (induction s) (auto dest: find_close_tl)

lemma SLASH_STAR: "SLASH \<noteq> STAR" "STAR \<noteq> SLASH"
  by (simp_all add: SLASH_def STAR_def)

lemma find_close_strip: "find_close s = None \<Longrightarrow> find_close (strip_comments s) = None"
proof (induction s rule: strip_comments.induct)
  case (1 c d cs)
  have tl: "find_close (d # cs) = None" using "1.prems" by (rule find_close_tl)
  show ?case
  proof (cases "c = SLASH \<and> d = STAR")
    case True
    have "find_close cs = None" using tl by (rule find_close_tl)
    then show ?thesis
      using True 1 tl SLASH_STAR by (simp add: find_close_skip)
  next
    case False
    note nb = this
    show ?thesis
    proof (cases "c = SLASH \<and> d = SLASH")
      case True
      have "find_close (dropWhile dot cs) = None"
        using tl find_close_tl find_close_dropWhile by blast
      then show ?thesis using True nb 1 by simp
    next
      case False
      have ih: "find_close (strip_comments (d # cs)) = None"
        using 1 nb False tl by simp
      show ?thesis
      proof (cases "c = STAR")
        case True
        then have "d \<noteq> SLASH" using "1.prems" by auto
        then show ?thesis
          using True nb False ih by (simp add: strip_keep SLASH_STAR)
      next
        case c: False
        then show ?thesis
          using nb False ih by (auto simp: find_close_skip SLASH_STAR)
      qed
    qed
  qed
qed simp_all

lemma has_line_skip: "c \<noteq> SLASH \<Longrightarrow> has_line_comment (c # t) = has_line_comment t"
  by (cases t) simp_all

lemma has_block_skip: "c \<noteq> SLASH \<Longrightarrow> has_block_comment (c # t) = has_block_comment t"
  by (cases t) simp_all

lemma no_line_strip: "\<not> has_line_comment (strip_comments s)"
proof (induction s rule: strip_comments.induct)
  case (1 c d cs)
  show ?case
  proof (cases "c = SLASH")
    case True
    then show ?thesis
      using 1 SLASH_STAR by (auto simp: strip_keep split: option.splits)
  next
    case False
    then show ?thesis using 1 by (simp add: has_line_skip)
  qed
qed simp_all

lemma no_block_strip: "\<not> has_block_comment (strip_comments s)"
proof (induction s rule: strip_comments.induct)
  case (1 c d cs)
  show ?case
  proof (cases "c = SLASH")
    case True
    then show ?thesis
      using 1 SLASH_STAR find_close_strip [of cs]
      by (auto simp: strip_keep split: option.splits)
  next
    case False
    then show ?thesis using 1 by (simp add: has_block_skip)
  qed
qed simp_all

lemma strip_fix:
  "\<not> has_line_comment t \<Longrightarrow> \<not> has_block_comment t \<Longrightarrow> strip_comments t = t"
  by (induction t rule: strip_comments.induct) (auto split: option.splits)

subsection \<open>What collapsing and trimming leave\<close>

lemma has_line_tl: "has_line_comment t \<Longrightarrow> has_line_comment (c # t)"
  by (cases t) simp_all

lemma has_block_tl: "has_block_comment t \<Longrightarrow> has_block_comment (c # t)"
  by (cases t) simp_all

lemma has_double_tl: "has_double_space t \<Longrightarrow> has_double_space (c # t)"
  by (cases t) simp_all

lemma has_line_dropWhile: "has_line_comment (dropWhile p t) \<Longrightarrow> has_line_comment t"
  by (induction t) (auto intro: has_line_tl split: if_splits)

lemma has_block_dropWhile: "has_block_comment (dropWhile p t) \<Longrightarrow> has_block_comment t"
  by (induction t) (auto intro: has_block_tl split: if_splits)

lemma has_double_dropWhile: "has_double_space (dropWhile p t) \<Longrightarrow> has_double_space t"
  by (induction t) (auto intro: has_double_tl split: if_splits)

lemma find_close_append: "find_close xs = Some r \<Longrightarrow> find_close (xs @ ys) = Some (r @ ys)"
  by (induction xs rule: find_close.induct) (auto split: if_splits)

lemma has_line_append: "has_line_comment xs \<Longrightarrow> has_line_comment (xs @ ys)"
  by (induction xs rule: has_line_comment.induct) auto

lemma has_block_append: "has_block_comment xs \<Longrightarrow> has_block_comment (xs @ ys)"
  by (induction xs rule: has_block_comment.induct) (auto dest: find_close_append)

lemma has_double_append: "has_double_space xs \<Longrightarrow> has_double_space (xs @ ys)"
  by (induction xs rule: has_double_space.induct) auto

lemma trim_append: "dropWhile is_space s = trim s @ rev (takeWhile is_space (rev (dropWhile is_space s)))"
proof -
  have "rev (takeWhile is_space (rev (dropWhile is_space s)) @ dropWhile is_space (rev (dropWhile is_space s)))
        = dropWhile is_space s"
    by (simp only: takeWhile_dropWhile_id rev_rev_ident)
  then show ?thesis by (simp only: trim_def rev_append)
qed

lemma no_line_trim: "\<not> has_line_comment s \<Longrightarrow> \<not> has_line_comment (trim s)"
  using has_line_append [of "trim s"] has_line_dropWhile [of is_space s] trim_append [of s]
  by metis

lemma no_block_trim: "\<not> has_block_comment s \<Longrightarrow> \<not> has_block_comment (trim s)"
  using has_block_append [of "trim s"] has_block_dropWhile [of is_space s] trim_append [of s]
  by metis

lemma no_double_trim: "\<not> has_double_space s \<Longrightarrow> \<not> has_double_space (trim s)"
  using has_double_append [of "trim s"] has_double_dropWhile [of is_space s] trim_append [of s]
  by metis

lemma set_trim: "set (trim s) \<subseteq> set s"
proof -
  have "set (trim s) \<subseteq> set (dropWhile is_space s)"
    using trim_append [of s] by (metis Un_upper1 set_append)
  then show ?thesis using set_dropWhileD by fastforce
qed

lemma is_space_SPACE: "is_space SPACE"
  by (simp add: is_space_def SPACE_def)

lemma not_space_SLASH: "\<not> is_space SLASH" "\<not> is_space STAR"
  by (simp_all add: is_space_def SLASH_def STAR_def)

lemma find_close_collapse: "find_close s = None \<Longrightarrow> find_close (collapse_spaces s) = None"
proof (induction s rule: collapse_spaces.induct)
  case 1
  show ?case by simp
next
  case (2 c cs)
  have tl: "find_close cs = None" using "2.prems" by (rule find_close_tl)
  show ?case
  proof (cases "is_space c")
    case True
    have "find_close (collapse_spaces (dropWhile is_space cs)) = None"
      using True find_close_dropWhile [OF tl] by (rule "2.IH"(1))
    moreover have "SPACE \<noteq> STAR" by (simp add: SPACE_def STAR_def)
    ultimately show ?thesis using True by (simp add: find_close_skip)
  next
    case False
    have ih: "find_close (collapse_spaces cs) = None" using False tl by (rule "2.IH"(2))
    show ?thesis
    proof (cases "c = STAR")
      case True
      show ?thesis
      proof (cases cs)
        case Nil
        then show ?thesis using False by simp
      next
        case (Cons d ds)
        then have "d \<noteq> SLASH" using "2.prems" True by auto
        then show ?thesis
          using False True ih Cons not_space_SLASH is_space_SPACE by auto
      qed
    next
      case c: False
      then show ?thesis using False ih by (simp add: find_close_skip)
    qed
  qed
qed

lemma no_line_collapse: "\<not> has_line_comment s \<Longrightarrow> \<not> has_line_comment (collapse_spaces s)"
proof (induction s rule: collapse_spaces.induct)
  case 1
  show ?case by simp
next
  case (2 c cs)
  have tl: "\<not> has_line_comment cs" using "2.prems" has_line_tl by blast
  show ?case
  proof (cases "is_space c")
    case True
    have "\<not> has_line_comment (dropWhile is_space cs)"
      using tl has_line_dropWhile by blast
    with True have "\<not> has_line_comment (collapse_spaces (dropWhile is_space cs))"
      by (rule "2.IH"(1))
    moreover have "SPACE \<noteq> SLASH" by (simp add: SPACE_def SLASH_def)
    ultimately show ?thesis using True by (simp add: has_line_skip)
  next
    case False
    have ih: "\<not> has_line_comment (collapse_spaces cs)" using False tl by (rule "2.IH"(2))
    show ?thesis
    proof (cases cs)
      case Nil
      then show ?thesis using False by simp
    next
      case (Cons d ds)
      then have "\<not> (c = SLASH \<and> d = SLASH)" using "2.prems" by auto
      then show ?thesis
        using False ih Cons not_space_SLASH is_space_SPACE by auto
    qed
  qed
qed

lemma no_block_collapse: "\<not> has_block_comment s \<Longrightarrow> \<not> has_block_comment (collapse_spaces s)"
proof (induction s rule: collapse_spaces.induct)
  case 1
  show ?case by simp
next
  case (2 c cs)
  have tl: "\<not> has_block_comment cs" using "2.prems" has_block_tl by blast
  show ?case
  proof (cases "is_space c")
    case True
    have "\<not> has_block_comment (dropWhile is_space cs)"
      using tl has_block_dropWhile by blast
    with True have "\<not> has_block_comment (collapse_spaces (dropWhile is_space cs))"
      by (rule "2.IH"(1))
    moreover have "SPACE \<noteq> SLASH" by (simp add: SPACE_def SLASH_def)
    ultimately show ?thesis using True by (simp add: has_block_skip)
  next
    case False
    have ih: "\<not> has_block_comment (collapse_spaces cs)" using False tl by (rule "2.IH"(2))
    show ?thesis
    proof (cases cs)
      case Nil
      then show ?thesis using False by simp
    next
      case (Cons d ds)
      then have "\<not> (c = SLASH \<and> d = STAR \<and> find_close ds \<noteq> None)" using "2.prems" by auto
      then show ?thesis
        using False ih Cons not_space_SLASH is_space_SPACE find_close_collapse [of ds] by auto
    qed
  qed
qed

lemma collapse_only_SPACE: "x \<in> set (collapse_spaces s) \<Longrightarrow> is_space x \<Longrightarrow> x = SPACE"
  by (induction s rule: collapse_spaces.induct) (auto split: if_splits dest: set_dropWhileD)

lemma collapse_dropWhile_head:
  "collapse_spaces (dropWhile is_space cs) = x # xs \<Longrightarrow> \<not> is_space x"
proof (cases "dropWhile is_space cs")
  case Nil
  then show "collapse_spaces (dropWhile is_space cs) = x # xs \<Longrightarrow> \<not> is_space x" by simp
next
  case (Cons d ds)
  then have "\<not> is_space d" using hd_dropWhile [of is_space cs] by (metis list.sel(1) list.distinct(1))
  then show "collapse_spaces (dropWhile is_space cs) = x # xs \<Longrightarrow> \<not> is_space x"
    using Cons by simp
qed

lemma has_double_skip: "\<not> is_space c \<Longrightarrow> has_double_space (c # t) = has_double_space t"
  by (cases t) simp_all

lemma no_double_collapse: "\<not> has_double_space (collapse_spaces s)"
proof (induction s rule: collapse_spaces.induct)
  case 1
  show ?case by simp
next
  case (2 c cs)
  show ?case
  proof (cases "is_space c")
    case True
    show ?thesis
    proof (cases "collapse_spaces (dropWhile is_space cs)")
      case Nil
      then show ?thesis using True by simp
    next
      case (Cons x xs)
      then have "\<not> is_space x" by (rule collapse_dropWhile_head)
      then show ?thesis using True 2 Cons by simp
    qed
  next
    case False
    then show ?thesis using 2 by (simp add: has_double_skip)
  qed
qed

lemma collapse_fix:
  "\<not> has_double_space t \<Longrightarrow> (\<forall>x\<in>set t. is_space x \<longrightarrow> x = SPACE) \<Longrightarrow> collapse_spaces t = t"
proof (induction t rule: collapse_spaces.induct)
  case 1
  show ?case by simp
next
  case (2 c cs)
  have tl: "\<not> has_double_space cs" using "2.prems"(1) has_double_tl by blast
  show ?case
  proof (cases "is_space c")
    case True
    have dw: "dropWhile is_space cs = cs"
      using "2.prems"(1) True by (cases cs) auto
    show ?thesis using 2 True dw tl by simp
  next
    case False
    then show ?thesis using 2 tl by simp
  qed
qed

lemma trim_fix: "trim (trim s) = trim s"
proof -
  define a where "a = dropWhile is_space s"
  define b where "b = dropWhile is_space (rev a)"
  have ts: "trim s = rev b" by (simp add: trim_def a_def b_def)
  have front: "dropWhile is_space (rev b) = rev b"
  proof (cases "b = []")
    case True
    then show ?thesis by simp
  next
    case False
    then have ne: "rev a \<noteq> []" by (auto simp: b_def)
    have "last b = last (rev a)"
      using False takeWhile_dropWhile_id [of is_space "rev a"] last_appendR [of b "takeWhile is_space (rev a)"]
      by (simp add: b_def)
    also have "\<dots> = hd a" using ne by (simp add: last_rev)
    finally have "hd (rev b) = hd a" using False by (simp add: hd_rev)
    moreover have "\<not> is_space (hd a)"
      using ne hd_dropWhile [of is_space s] by (simp add: a_def)
    ultimately show ?thesis using False by (cases "rev b") auto
  qed
  have rear: "dropWhile is_space b = b" by (simp add: b_def)
  show ?thesis
    unfolding ts by (simp add: trim_def front rear)
qed

subsection \<open>Occurrences of comments and of double whitespace\<close>

lemma has_line_intro: "has_line_comment (u @ SLASH # SLASH # w)"
  by (induction u) (auto intro: has_line_tl)

lemma find_close_intro: "find_close (v @ STAR # SLASH # w) \<noteq> None"
proof (induction v)
  case Nil
  show ?case by simp
next
  case (Cons c v)
  then show ?case by (cases "v @ STAR # SLASH # w") auto
qed

lemma has_block_intro: "has_block_comment (u @ SLASH # STAR # v @ STAR # SLASH # w)"
proof (induction u)
  case Nil
  show ?case using find_close_intro [of v w] by simp
next
  case (Cons c u)
  then show ?case by (auto intro: has_block_tl)
qed

lemma has_double_intro: "is_space a \<Longrightarrow> is_space b \<Longrightarrow> has_double_space (u @ a # b # w)"
  by (induction u) (auto intro: has_double_tl)

lemma js_line_open: "js ''//'' = [SLASH, SLASH]"
  by (simp add: js_def SLASH_def)

lemma js_block_open: "js ''/*'' = [SLASH, STAR]"
  by (simp add: js_def SLASH_def STAR_def)

lemma js_block_close: "js ''*/'' = [STAR, SLASH]"
  by (simp add: js_def SLASH_def STAR_def)

lemma spec_normalize_clean:
  "\<not> has_line_comment (spec_normalize s)"
  "\<not> has_block_comment (spec_normalize s)"
  "\<not> has_double_space (spec_normalize s)"
  "\<forall>x\<in>set (spec_normalize s). is_space x \<longrightarrow> x = SPACE"
proof -
  show "\<not> has_line_comment (spec_normalize s)"
    unfolding spec_normalize_def
    by (intro no_line_trim no_line_collapse no_line_strip)
  show "\<not> has_block_comment (spec_normalize s)"
    unfolding spec_normalize_def
    by (intro no_block_trim no_block_collapse no_block_strip)
  show "\<not> has_double_space (spec_normalize s)"
    unfolding spec_normalize_def
    by (intro no_double_trim no_double_collapse)
  show "\<forall>x\<in>set (spec_normalize s). is_space x \<longrightarrow> x = SPACE"
    unfolding spec_normalize_def
    using set_trim collapse_only_SPACE by blast
qed

lemma spec_normalize_idem: "spec_normalize (spec_normalize s) = spec_normalize s"
proof -
  have 1: "strip_comments (spec_normalize s) = spec_normalize s"
    by (intro strip_fix spec_normalize_clean)
  have 2: "collapse_spaces (spec_normalize s) = spec_normalize s"
    by (intro collapse_fix spec_normalize_clean)
  have 3: "trim (spec_normalize s) = spec_normalize s"
    by (simp add: spec_normalize_def trim_fix)
  show ?thesis
    by (subst (1) spec_normalize_def) (simp only: 1 2 3)
qed

subsection \<open>The claims about the normalizer\<close>

text \<open>
  The two regular-expression replacements and \<open>trim\<close> compute, on every string,
  the empty one included, what the lexical reading of the specification computes:
  every \<open>//\<close> up to the end of its line and every \<open>/*\<close> up to the first \<open>*/\<close>
  after it are removed, wherever they stand, then each run of whitespace is collapsed
  to one space and the ends are trimmed.
\<close>

theorem normalizeCode_refines_spec:
  "normalizeCode s = trim (collapse_spaces (strip_comments s)) \<and> normalizeCode [] = []"
proof -
  have "normalizeCode t = trim (collapse_spaces (strip_comments t))" for t
    by (simp add: normalizeCode_spec spec_normalize_def)
  then show ?thesis by (simp add: trim_def)
qed

theorem normalizeCode_refines_spec_witness:
  "normalizeCode (js ''a /* b */  c // d'') = js ''a c''"
  using normalizeCode_refines_spec [of "js ''a /* b */  c // d''"]
  by (simp add: js_def trim_def SLASH_def STAR_def SPACE_def is_space_def dot_def
      is_line_terminator_def)

text \<open>
  C7. \<open>normalizeCode\<close> is to return its input with the comments removed, the
  runs of whitespace collapsed and the ends trimmed. On a source whose string literal
  holds \<open>//\<close> and is followed by a block comment of two lines, it removes the rest
  of the literal, the end of the statement and the first line of the comment, none
  of which but the last is comment text, and keeps the second line of the comment
  with its \<open>*/\<close>; the source without its comment is the statement alone.
\<close>

theorem normalizeCode_cuts_string_literal:
  \<open>normalizeCode (js ''u="http://x"; /* one'' @ NL # js ''two */'') = js ''u="http: two */'' \<and>
   js ''u="http: two */'' \<noteq> js ''u="http://x";''\<close>
  by (simp add: normalizeCode_spec spec_normalize_def js_def trim_def NL_def SLASH_def STAR_def
      SPACE_def is_space_def dot_def is_line_terminator_def)

text \<open>
  C8. The result of \<open>normalizeCode\<close> holds no \<open>//\<close>, no \<open>/*\<close> followed by a
  \<open>*/\<close>, and no two adjacent whitespace code units; and normalizing a normalized
  string changes nothing.
\<close>

theorem normalizeCode_clean_idempotent:
  "(\<nexists>u w. normalizeCode s = u @ js ''//'' @ w) \<and>
   (\<nexists>u v w. normalizeCode s = u @ js ''/*'' @ v @ js ''*/'' @ w) \<and>
   (\<nexists>u a b w. normalizeCode s = u @ [a, b] @ w \<and> is_space a \<and> is_space b) \<and>
   normalizeCode (normalizeCode s) = normalizeCode s"
proof (intro conjI)
  show "\<nexists>u w. normalizeCode s = u @ js ''//'' @ w"
    using spec_normalize_clean(1) [of s] has_line_intro
    by (auto simp: normalizeCode_spec js_line_open)
  show "\<nexists>u v w. normalizeCode s = u @ js ''/*'' @ v @ js ''*/'' @ w"
    using spec_normalize_clean(2) [of s] has_block_intro
    by (auto simp: normalizeCode_spec js_block_open js_block_close)
  show "\<nexists>u a b w. normalizeCode s = u @ [a, b] @ w \<and> is_space a \<and> is_space b"
    using spec_normalize_clean(3) [of s] has_double_intro
    by (auto simp: normalizeCode_spec)
  show "normalizeCode (normalizeCode s) = normalizeCode s"
    by (simp add: normalizeCode_spec spec_normalize_idem)
qed

theorem normalizeCode_clean_idempotent_witness:
  "normalizeCode (normalizeCode (js ''a  // b'')) = normalizeCode (js ''a  // b'')"
  using normalizeCode_clean_idempotent [of "js ''a  // b''"] by simp

section \<open>The preview renderer suppresses rebuilds\<close>

lemma updatePreview_same:
  "normalizeCode c = normalizedCode st \<Longrightarrow> updatePreview c st = st"
  by (simp add: updatePreview_def)

lemma updatePreview_changed:
  "normalizeCode c \<noteq> normalizedCode st \<Longrightarrow> iframe_mounted st \<Longrightarrow>
   updatePreview c st =
     st\<lparr>normalizedCode := normalizeCode c, srcdoc := getIframeContent c,
        assignments := Suc (assignments st)\<rparr>"
  by (simp add: updatePreview_def Let_def)

lemma edits_track:
  "iframe_mounted st \<Longrightarrow> normalizedCode st = normalizeCode r \<Longrightarrow> srcdoc st = getIframeContent r \<Longrightarrow>
   srcdoc (edits cs st) = getIframeContent (last_rendered r cs) \<and>
   normalizedCode (edits cs st) = normalizeCode (last_rendered r cs) \<and>
   assignments (edits cs st) = assignments st + render_count r cs"
proof (induction cs arbitrary: st r)
  case Nil
  then show ?case by (simp add: edits_def)
next
  case (Cons c cs)
  show ?case
  proof (cases "normalizeCode c = normalizeCode r")
    case True
    then have "updatePreview c st = st" using Cons.prems by (simp add: updatePreview_same)
    then have "edits (c # cs) st = edits cs st" by (simp add: edits_def)
    then show ?thesis using True Cons.IH [OF Cons.prems] by simp
  next
    case False
    define st' where "st' = updatePreview c st"
    have st': "st' = st\<lparr>normalizedCode := normalizeCode c, srcdoc := getIframeContent c,
        assignments := Suc (assignments st)\<rparr>"
      unfolding st'_def using False Cons.prems by (simp add: updatePreview_changed)
    have "iframe_mounted st'" "normalizedCode st' = normalizeCode c" "srcdoc st' = getIframeContent c"
      using Cons.prems by (simp_all add: st')
    from Cons.IH [OF this]
    have "srcdoc (edits cs st') = getIframeContent (last_rendered c cs) \<and>
      normalizedCode (edits cs st') = normalizeCode (last_rendered c cs) \<and>
      assignments (edits cs st') = assignments st' + render_count c cs" .
    moreover have "edits (c # cs) st = edits cs st'" by (simp add: edits_def st'_def)
    moreover have "assignments st' = Suc (assignments st)" by (simp add: st')
    ultimately show ?thesis using False by simp
  qed
qed

lemma strip_line_tail:
  "SLASH \<notin> set p \<Longrightarrow> \<forall>c\<in>set x. \<not> is_line_terminator c \<Longrightarrow>
   strip_comments (p @ SLASH # SLASH # x) = p"
proof (induction p)
  case Nil
  have dw: "dropWhile dot x = []" using Nil by (simp add: dot_def)
  have "strip_comments ([] @ SLASH # SLASH # x) = strip_comments (dropWhile dot x)"
    by (simp add: SLASH_STAR)
  also have "\<dots> = []" by (simp only: dw strip_comments.simps)
  finally show ?case .
next
  case (Cons c p)
  then have "c \<noteq> SLASH" by auto
  then show ?case using Cons by (simp add: strip_keep)
qed

lemma strip_no_slash: "SLASH \<notin> set p \<Longrightarrow> strip_comments p = p"
proof (induction p)
  case Nil
  show ?case by simp
next
  case (Cons c p)
  then have "c \<noteq> SLASH" by auto
  then show ?case using Cons by (simp add: strip_keep)
qed

lemma normalizeCode_line_tail:
  "SLASH \<notin> set p \<Longrightarrow> \<forall>c\<in>set x. \<not> is_line_terminator c \<Longrightarrow>
   normalizeCode (p @ js ''//'' @ x) = normalizeCode p"
  by (simp add: normalizeCode_spec spec_normalize_def js_line_open strip_line_tail strip_no_slash)

lemma initial_preview_consistent:
  "iframe_mounted initial_preview \<and>
   normalizedCode initial_preview = normalizeCode INITIAL_CODE \<and>
   srcdoc initial_preview = getIframeContent INITIAL_CODE"
  by (simp add: initial_preview_def)

text \<open>
  C1. In the editor that calls the proxy route, an edit whose normalized form equals
  the stored one leaves the frame's content and the counter of its assignments as
  they are, and after any sequence of edits the frame shows the last source whose
  normalized form differed from that of the source shown before it, the counter
  having grown by the number of such edits.
\<close>

theorem updatePreview_suppresses_and_tracks:
  assumes "iframe_mounted st" and "normalizedCode st = normalizeCode r"
    and "srcdoc st = getIframeContent r"
  shows "(normalizeCode c = normalizeCode r \<longrightarrow> updatePreview c st = st) \<and>
    srcdoc (edits cs st) = getIframeContent (last_rendered r cs) \<and>
    assignments (edits cs st) = assignments st + render_count r cs"
  using assms edits_track [OF assms, of cs] by (simp add: updatePreview_same)

lemmas js_eval =
  js_def trim_def NL_def SLASH_def STAR_def SPACE_def BACKTICK_def is_space_def dot_def
  is_line_terminator_def normalizeCode_spec spec_normalize_def

theorem updatePreview_suppresses_and_tracks_witness:
  "(let st = \<lparr>normalizedCode = normalizeCode (js ''x=1''), iframe_mounted = True,
              srcdoc = getIframeContent (js ''x=1''), assignments = 1\<rparr>
    in updatePreview (js ''x=1  '') st = st \<and>
       srcdoc (edits [js ''x=1  '', js ''x = 1'', js ''x =  1''] st) = getIframeContent (js ''x = 1'') \<and>
       assignments (edits [js ''x=1  '', js ''x = 1'', js ''x =  1''] st) = 2)"
proof -
  define st where "st = \<lparr>normalizedCode = normalizeCode (js ''x=1''), iframe_mounted = True,
              srcdoc = getIframeContent (js ''x=1''), assignments = 1\<rparr>"
  have n1: "normalizeCode (js ''x=1  '') = normalizeCode (js ''x=1'')"
    by (simp add: js_eval)
  have n2: "normalizeCode (js ''x = 1'') \<noteq> normalizeCode (js ''x=1'')"
    by (simp add: js_eval)
  have n3: "normalizeCode (js ''x =  1'') = normalizeCode (js ''x = 1'')"
    by (simp add: js_eval)
  have "iframe_mounted st" "normalizedCode st = normalizeCode (js ''x=1'')"
    "srcdoc st = getIframeContent (js ''x=1'')" "assignments st = 1"
    by (simp_all add: st_def)
  from updatePreview_suppresses_and_tracks [OF this(1,2,3),
      of "js ''x=1  ''" "[js ''x=1  '', js ''x = 1'', js ''x =  1'']"] this(4)
  have "updatePreview (js ''x=1  '') st = st \<and>
       srcdoc (edits [js ''x=1  '', js ''x = 1'', js ''x =  1''] st) = getIframeContent (js ''x = 1'') \<and>
       assignments (edits [js ''x=1  '', js ''x = 1'', js ''x =  1''] st) = 2"
    using n1 n2 n3 by simp
  then show ?thesis by (simp add: st_def)
qed

text \<open>
  The edit from \<open>x=1\<close> to \<open>x = 1\<close> touches whitespace only, yet the two
  normalized forms differ and the frame is assigned again; and the \<open>updatePreview\<close>
  of the editor that calls the vendor library directly assigns the frame on the edit
  from \<open>x=1\<close> to \<open>x=1 // one\<close>, which only adds a comment and keeps the
  normalized form.
\<close>

theorem preview_reassigned_by_cosmetic_edits:
  "filter (\<lambda>c. \<not> is_space c) (js ''x = 1'') = filter (\<lambda>c. \<not> is_space c) (js ''x=1'') \<and>
   assignments (updatePreview (js ''x = 1'')
     \<lparr>normalizedCode = normalizeCode (js ''x=1''), iframe_mounted = True,
      srcdoc = getIframeContent (js ''x=1''), assignments = 1\<rparr>) = 2 \<and>
   normalizeCode (js ''x=1 // one'') = normalizeCode (js ''x=1'') \<and>
   assignments (updatePreview_direct (js ''x=1 // one'')
     \<lparr>normalizedCode = normalizeCode (js ''x=1''), iframe_mounted = True,
      srcdoc = getIframeContent (js ''x=1''), assignments = 1\<rparr>) = 2"
proof -
  have "normalizeCode (js ''x = 1'') \<noteq> normalizeCode (js ''x=1'')"
    by (simp add: js_eval)
  then have "assignments (updatePreview (js ''x = 1'')
     \<lparr>normalizedCode = normalizeCode (js ''x=1''), iframe_mounted = True,
      srcdoc = getIframeContent (js ''x=1''), assignments = 1\<rparr>) = 2"
    by (simp add: updatePreview_def Let_def)
  moreover have "normalizeCode (js ''x=1 // one'') = normalizeCode (js ''x=1'')"
    by (simp add: js_eval)
  moreover have "filter (\<lambda>c. \<not> is_space c) (js ''x = 1'') = filter (\<lambda>c. \<not> is_space c) (js ''x=1'')"
    by (simp add: js_def is_space_def)
  ultimately show ?thesis by (simp add: updatePreview_direct_def)
qed

text \<open>
  C10. Two sources that differ in one character of a string literal, after a \<open>//\<close>
  inside it, have the same normalized form, and \<open>updatePreview\<close> leaves the frame
  as it is when the one replaces the other.
\<close>

theorem normalizeCode_identifies_distinct_programs:
  \<open>js ''t("//a")'' \<noteq> js ''t("//b")'' \<and>
   take 5 (js ''t("//a")'') = take 5 (js ''t("//b")'') \<and>
   drop 6 (js ''t("//a")'') = drop 6 (js ''t("//b")'') \<and>
   \<not> is_space (js ''t("//a")'' ! 5) \<and> \<not> is_space (js ''t("//b")'' ! 5) \<and>
   normalizeCode (js ''t("//a")'') = normalizeCode (js ''t("//b")'') \<and>
   (let st = \<lparr>normalizedCode = normalizeCode (js ''t("//a")''), iframe_mounted = True,
              srcdoc = getIframeContent (js ''t("//a")''), assignments = 1\<rparr>
    in updatePreview (js ''t("//b")'') st = st)\<close>
proof -
  have a: \<open>js ''t("//a")'' = js ''t("'' @ js ''//'' @ js ''a")''\<close>
    by (simp add: js_def)
  have b: \<open>js ''t("//b")'' = js ''t("'' @ js ''//'' @ js ''b")''\<close>
    by (simp add: js_def)
  have p: \<open>SLASH \<notin> set (js ''t("'')\<close>
    by (simp add: js_def SLASH_def)
  have \<open>normalizeCode (js ''t("'' @ js ''//'' @ js ''a")'') = normalizeCode (js ''t("'')\<close>
    by (rule normalizeCode_line_tail [OF p]) (simp add: js_def is_line_terminator_def)
  moreover have \<open>normalizeCode (js ''t("'' @ js ''//'' @ js ''b")'') = normalizeCode (js ''t("'')\<close>
    by (rule normalizeCode_line_tail [OF p]) (simp add: js_def is_line_terminator_def)
  ultimately have eq: \<open>normalizeCode (js ''t("//a")'') = normalizeCode (js ''t("//b")'')\<close>
    by (simp only: a b)
  have rest: \<open>js ''t("//a")'' \<noteq> js ''t("//b")'' \<and>
   take 5 (js ''t("//a")'') = take 5 (js ''t("//b")'') \<and>
   drop 6 (js ''t("//a")'') = drop 6 (js ''t("//b")'') \<and>
   \<not> is_space (js ''t("//a")'' ! 5) \<and> \<not> is_space (js ''t("//b")'' ! 5)\<close>
    by (simp add: js_def is_space_def)
  show ?thesis
    using eq rest by (simp add: updatePreview_def)
qed

theorem normalizeCode_identifies_distinct_programs_witness:
  \<open>normalizeCode (js ''t("//a")'') = normalizeCode (js ''t("//b")'')\<close>
  using normalizeCode_identifies_distinct_programs by blast

section \<open>Fence extraction, step by step\<close>

lemma str_exec:
  "rmatch (Str lit) prev s k =
     (if starts_with lit s
      then k (if lit = [] then prev else Some (last lit)) (drop (length lit) s)
      else None)"
proof (induction lit arbitrary: prev s)
  case Nil
  show ?case by simp
next
  case (Cons a lit)
  show ?case by (cases s) (auto simp: Cons)
qed

lemma TAG_last: "TAG \<noteq> []" "last TAG = NL"
  by (simp_all add: TAG_def)

lemma tag_exec:
  "regex_exec tag_regex prev s =
     (if at_line_start prev \<and> starts_with TAG s then Some (Some NL, drop (length TAG) s) else None)"
  by (cases prev) (simp_all add: regex_exec_def tag_regex_def str_exec at_line_start_def TAG_last)

lemma replace_tag: "replace_first tag_regex [] prev s = strip_first_tag_line prev s"
proof (induction s arbitrary: prev)
  case Nil
  have "\<not> starts_with TAG []" by (simp add: TAG_def js_def)
  then show ?case by (simp add: tag_exec)
next
  case (Cons c s)
  show ?case by (simp add: tag_exec Cons)
qed

lemma upt_two: "[m..<m + Suc (Suc k)] = m # Suc m # [Suc (Suc m)..<Suc (Suc m) + k]"
  by (simp add: upt_rec [of m] upt_rec [of "Suc m"])

lemma odd_index_zip:
  "map fst (filter (\<lambda>(x, i). i mod 2 = 1) (zip xs [2 * n..<2 * n + length xs])) = odd_segments xs"
proof (induction xs arbitrary: n rule: odd_segments.induct)
  case (1 x y zs)
  have "[2 * n..<2 * n + length (x # y # zs)]
        = (2 * n) # Suc (2 * n) # [2 * Suc n..<2 * Suc n + length zs]"
    using upt_two [of "2 * n" "length zs"] by simp
  then show ?case using 1 [of "Suc n"] by simp
qed (simp_all add: upt_rec)

lemma filter_odd: "filter_indexed (\<lambda>block index. index mod 2 = 1) xs = odd_segments xs"
  using odd_index_zip [of xs 0] by (simp add: filter_indexed_def)

lemma extract_fenced_spec:
  "extract_fenced text = (if includes_str text FENCE then spec_extract text else text)"
  by (simp only: extract_fenced_def spec_extract_def replace_tag filter_odd)

lemmas fence_eval =
  js_def trim_def NL_def BACKTICK_def FENCE_def TAG_def is_space_def is_line_terminator_def
  spec_extract_def spec_extract_leading_def strip_leading_tag_def split_str_def at_line_start_def

text \<open>
  C2. For a response text that holds a fence marker, the extracted code is the result
  of splitting the text on the marker, keeping the segments at odd indices, joining
  them with a line feed, removing the first \<open>javascript\<close> line that starts a line
  of the joined text, and trimming; for the text made of an opening fence with the
  tag \<open>javascript\<close>, the line \<open>foo()\<close> and a closing fence, it is \<open>foo()\<close>.
\<close>

theorem extract_fenced_steps:
  "(includes_str text FENCE \<longrightarrow>
      extract_fenced text =
        trim (strip_first_tag_line None (join_str (odd_segments (split_str text FENCE)) [NL]))) \<and>
   extract_fenced (js ''```javascript'' @ NL # js ''foo()'' @ NL # js ''```'') = js ''foo()''"
proof -
  have "extract_fenced (js ''```javascript'' @ NL # js ''foo()'' @ NL # js ''```'') = js ''foo()''"
    by (simp add: extract_fenced_spec) (simp add: fence_eval)
  then show ?thesis
    by (simp add: extract_fenced_spec spec_extract_def)
qed

theorem extract_fenced_steps_witness:
  "includes_str (js ''```js'' @ NL # js ''javascript'' @ NL # js ''bar()```'') FENCE \<and>
   extract_fenced (js ''```js'' @ NL # js ''javascript'' @ NL # js ''bar()```'') = js ''js'' @ NL # js ''bar()''"
proof -
  have inc: "includes_str (js ''```js'' @ NL # js ''javascript'' @ NL # js ''bar()```'') FENCE"
    by (simp add: fence_eval)
  with extract_fenced_steps [of "js ''```js'' @ NL # js ''javascript'' @ NL # js ''bar()```''"]
  have "extract_fenced (js ''```js'' @ NL # js ''javascript'' @ NL # js ''bar()```'') =
      trim (strip_first_tag_line None (join_str (odd_segments
        (split_str (js ''```js'' @ NL # js ''javascript'' @ NL # js ''bar()```'') FENCE)) [NL]))"
    by blast
  also have "\<dots> = js ''js'' @ NL # js ''bar()''"
    by (simp add: fence_eval)
  finally show ?thesis using inc by simp
qed

text \<open>
  Removing the tag only where it leads the joined text gives another result than the
  code: a fenced body without a leading tag whose third line is \<open>javascript\<close>.
\<close>

theorem leading_tag_reading_differs:
  "includes_str (js ''```'' @ NL # js ''x'' @ NL # js ''javascript'' @ NL # js ''y'' @ NL # js ''```'') FENCE \<and>
   extract_fenced (js ''```'' @ NL # js ''x'' @ NL # js ''javascript'' @ NL # js ''y'' @ NL # js ''```'')
     = js ''x'' @ NL # js ''y'' \<and>
   spec_extract_leading (js ''```'' @ NL # js ''x'' @ NL # js ''javascript'' @ NL # js ''y'' @ NL # js ''```'')
     = js ''x'' @ NL # js ''javascript'' @ NL # js ''y''"
  by (simp add: extract_fenced_spec) (simp add: fence_eval)

text \<open>
  C9. The replacement with \<^verbatim>\<open>/^javascript\n/m\<close> removes the first \<open>javascript\<close> line
  that starts a line of its input, wherever that line is; and there is a response
  whose fenced body has no leading tag and an inner line \<open>javascript\<close> that the
  extraction deletes.
\<close>

theorem tag_replace_hits_inner_line:
  "replace_first tag_regex [] None t = strip_first_tag_line None t \<and>
   (let body = NL # js ''let a'' @ NL # js ''javascript'' @ NL # js ''let b'' @ [NL]
    in \<not> starts_with TAG body \<and> \<not> starts_with TAG (trim body) \<and>
       extract_fenced (FENCE @ body @ FENCE) = js ''let a'' @ NL # js ''let b'')"
proof -
  have "(let body = NL # js ''let a'' @ NL # js ''javascript'' @ NL # js ''let b'' @ [NL]
    in \<not> starts_with TAG body \<and> \<not> starts_with TAG (trim body) \<and>
       extract_fenced (FENCE @ body @ FENCE) = js ''let a'' @ NL # js ''let b'')"
    by (simp add: extract_fenced_spec) (simp add: fence_eval)
  then show ?thesis by (simp add: replace_tag)
qed

theorem tag_replace_hits_inner_line_witness:
  "replace_first tag_regex [] None (js ''a'' @ NL # js ''javascript'' @ NL # js ''b'') = js ''a'' @ NL # js ''b''"
proof -
  have "replace_first tag_regex [] None (js ''a'' @ NL # js ''javascript'' @ NL # js ''b'')
      = strip_first_tag_line None (js ''a'' @ NL # js ''javascript'' @ NL # js ''b'')"
    using tag_replace_hits_inner_line [of "js ''a'' @ NL # js ''javascript'' @ NL # js ''b''"]
    by blast
  also have "\<dots> = js ''a'' @ NL # js ''b''"
    by (simp add: fence_eval)
  finally show ?thesis .
qed

section \<open>The generation proxy and its client\<close>

lemma POST_text:
  "vendor rq = Inr text \<Longrightarrow>
   POST (Inr rq) vendor = \<lparr>status = 200, body = Code_payload (extract_fenced text), server_log = []\<rparr>"
  by (simp add: POST_def)

lemma POST_status:
  "status (POST request_json vendor) = 500 \<longleftrightarrow>
     isl request_json \<or> (\<exists>rq. request_json = Inr rq \<and> isl (vendor rq))"
  by (auto simp: POST_def split: sum.splits)

lemma POST_error:
  "(\<exists>m. body (POST request_json vendor) = Error_payload m) \<longleftrightarrow>
     isl request_json \<or> (\<exists>rq. request_json = Inr rq \<and> isl (vendor rq))"
  by (auto simp: POST_def split: sum.splits)

text \<open>
  C3. For a response text that holds no fence marker, the proxy returns the text as
  it is, and the client stores it as it is: nothing is trimmed.
\<close>

theorem unfenced_text_unchanged:
  assumes "\<not> includes_str text FENCE"
  shows "extract_fenced text = text \<and>
    POST (Inr rq) (\<lambda>r. Inr text) = \<lparr>status = 200, body = Code_payload text, server_log = []\<rparr> \<and>
    code (generateCode_settle cl (Resolved (Code_payload text)) st) = Some text"
  using assms by (simp add: extract_fenced_def POST_def generateCode_settle_def)

theorem unfenced_text_unchanged_witness:
  "\<not> includes_str (js '' x '') FENCE \<and> extract_fenced (js '' x '') = js '' x ''"
proof -
  have "\<not> includes_str (js '' x '') FENCE" by (simp add: fence_eval)
  then show ?thesis
    using unfenced_text_unchanged [of "js '' x ''"] by simp
qed

theorem unfenced_text_not_trimmed:
  "\<not> includes_str (js '' x '') FENCE \<and>
   body (POST (Inr \<lparr>req_prompt = js ''p'', req_modelName = js ''m'', req_temperature = js ''1''\<rparr>)
      (\<lambda>r. Inr (js '' x ''))) = Code_payload (js '' x '') \<and>
   trim (js '' x '') = js ''x'' \<and> js '' x '' \<noteq> js ''x''"
  by (simp add: POST_def extract_fenced_def) (simp add: fence_eval)

text \<open>
  C5. For every response text, whatever the number of its fence markers, the proxy
  answers with status 200 and a code payload; it answers with status 500 and an
  error payload exactly when reading the request body or the vendor call throws.
\<close>

theorem POST_never_rejects_text:
  "(vendor rq = Inr text \<longrightarrow>
      POST (Inr rq) vendor =
        \<lparr>status = 200, body = Code_payload (extract_fenced text), server_log = []\<rparr>) \<and>
   (status (POST request_json vendor) = 500 \<longleftrightarrow>
      isl request_json \<or> (\<exists>r. request_json = Inr r \<and> isl (vendor r))) \<and>
   ((\<exists>m. body (POST request_json vendor) = Error_payload m) \<longleftrightarrow>
      isl request_json \<or> (\<exists>r. request_json = Inr r \<and> isl (vendor r))) \<and>
   extract_fenced (js ''x```y``` z```w'') = js ''y'' @ NL # js ''w''"
proof -
  have "extract_fenced (js ''x```y``` z```w'') = js ''y'' @ NL # js ''w''"
    by (simp add: extract_fenced_spec) (simp add: fence_eval)
  then show ?thesis
    using POST_text [of vendor rq "text"] POST_status [of request_json vendor]
      POST_error [of request_json vendor]
    by blast
qed

theorem POST_never_rejects_text_witness:
  "POST (Inr \<lparr>req_prompt = js ''p'', req_modelName = js ''m'', req_temperature = js ''1''\<rparr>)
     (\<lambda>r. Inr (js ''```a'')) =
   \<lparr>status = 200, body = Code_payload (js ''a''), server_log = []\<rparr>"
proof -
  have "extract_fenced (js ''```a'') = js ''a''"
    by (simp add: extract_fenced_spec) (simp add: fence_eval)
  then show ?thesis
    using POST_never_rejects_text [of "\<lambda>r. Inr (js ''```a'')"
      "\<lparr>req_prompt = js ''p'', req_modelName = js ''m'', req_temperature = js ''1''\<rparr>"
      "js ''```a''"]
    by simp
qed

text \<open>
  When reading the request body throws, the proxy answers with status 500 and an
  error payload although the vendor library, which is not even called, would not
  throw.
\<close>

theorem POST_error_without_vendor_failure:
  "status (POST (Inl (Error (js ''Unexpected end of JSON input''))) (\<lambda>r. Inr (js ''ok''))) = 500 \<and>
   body (POST (Inl (Error (js ''Unexpected end of JSON input''))) (\<lambda>r. Inr (js ''ok'')))
     = Error_payload (js ''Unexpected end of JSON input'') \<and>
   \<not> isl ((\<lambda>r. Inr (js ''ok'') :: js_error + js_string)
     \<lparr>req_prompt = js ''p'', req_modelName = js ''m'', req_temperature = js ''1''\<rparr>)"
  by (simp add: POST_def)

subsection \<open>The generation client\<close>

lemma settle_Rejected:
  "generateCode_settle cl (Rejected e) st = st\<lparr>console := console st @ [e], isGenerating := False\<rparr>"
  by (simp add: generateCode_settle_def)

lemma settle_error:
  "m \<noteq> [] \<Longrightarrow>
   generateCode_settle cl (Resolved (Error_payload m)) st =
     st\<lparr>console := console st @ [Error m], isGenerating := False\<rparr>"
  by (simp add: generateCode_settle_def)

lemma settle_clears: "isGenerating (generateCode_settle cl outcome st) = False"
  by (simp add: generateCode_settle_def Let_def)

text \<open>
  When the awaited request rejects, or the payload carries a non-empty error
  message, the call logs the error and changes nothing else but the generating
  flag, so the sketch source stays as it was; and whatever the outcome, the call
  ends with the generating flag cleared.
\<close>

theorem generateCode_failure_keeps_source:
  "isGenerating (generateCode_settle cl outcome st) = False \<and>
   generateCode_settle cl (Rejected e) st =
     st\<lparr>console := console st @ [e], isGenerating := False\<rparr> \<and>
   code (generateCode_settle cl (Rejected e) st) = code st \<and>
   (m \<noteq> [] \<longrightarrow>
      generateCode_settle cl (Resolved (Error_payload m)) st =
        st\<lparr>console := console st @ [Error m], isGenerating := False\<rparr> \<and>
      code (generateCode_settle cl (Resolved (Error_payload m)) st) = code st)"
  by (simp add: settle_Rejected settle_error settle_clears)

theorem generateCode_failure_keeps_source_witness:
  "code (generateCode_settle (render initial_editor) (Resolved (Error_payload (js ''quota'')))
      (initial_editor\<lparr>isGenerating := True\<rparr>)) = Some INITIAL_CODE \<and>
   console (generateCode_settle (render initial_editor) (Resolved (Error_payload (js ''quota'')))
      (initial_editor\<lparr>isGenerating := True\<rparr>)) = [Error (js ''quota'')] \<and>
   isGenerating (generateCode_settle (render initial_editor) (Resolved (Error_payload (js ''quota'')))
      (initial_editor\<lparr>isGenerating := True\<rparr>)) = False"
proof -
  have "js ''quota'' \<noteq> []" by (simp add: js_def)
  then show ?thesis
    using generateCode_failure_keeps_source [of "render initial_editor"
      "Resolved (Error_payload (js ''quota''))" "initial_editor\<lparr>isGenerating := True\<rparr>"
      "Error []" "js ''quota''"]
    by (simp add: initial_editor_def)
qed

text \<open>
  C6. A generation call that fails is to leave the sketch source as it was and to
  log the error. When the vendor call throws an error whose message is empty, the
  proxy answers with status 500 and an error payload with that empty message. The
  client's condition on \<open>data.error\<close> is false for it, unlike for a rejection or a
  non-empty message: the source becomes \<open>data.code\<close>, which is \<open>undefined\<close>, and
  nothing is logged; the generating flag is cleared all the same.
\<close>

theorem empty_error_message_taken_for_success:
  "(let response = POST (Inr \<lparr>req_prompt = js ''p'', req_modelName = js ''m'', req_temperature = js ''1''\<rparr>)
                     (\<lambda>r. Inl (Error []));
        st = initial_editor\<lparr>isGenerating := True\<rparr>;
        st' = generateCode_settle (render initial_editor) (Resolved (body response)) st
    in status response = 500 \<and> body response = Error_payload [] \<and>
       code st = Some INITIAL_CODE \<and> code st' = None \<and> console st' = [] \<and>
       \<not> isGenerating st')"
  by (simp add: POST_def generateCode_settle_def initial_editor_def)

lemma generate_guard: "isGenerating st \<Longrightarrow> step parseFloat Generate st = st"
  by (simp add: generateCode_call_def render_def)

lemma generate_once:
  "\<not> isGenerating st \<Longrightarrow>
   length (requests (step parseFloat Generate (step parseFloat Generate st))) =
     Suc (length (requests st))"
  by (simp add: generateCode_call_def render_def)

text \<open>
  C4. With auto-generate on, a generation that succeeds schedules a timer that calls
  the \<open>generateCode\<close> of the render that started it, in which \<open>isGenerating\<close> is
  false. If the user starts a generation before the timer fires, the timer's call
  passes the guard while that generation is in flight: the generating flag is set,
  a third request is sent, and two generations are in flight.
\<close>

theorem stale_timer_call_passes_guard:
  "(let st0 = initial_editor\<lparr>autoGenerate := True\<rparr>;
        st3 = run parseFloat
                [Generate, Settles 0 (Resolved (Code_payload (js ''draw()''))), Generate] st0;
        st4 = step parseFloat (Timer_fires 0) st3
    in isGenerating st3 \<and> length (in_flight st3) = 1 \<and> length (requests st3) = 2 \<and>
       length (timers st3) = 1 \<and>
       length (in_flight st4) = 2 \<and> length (requests st4) = 3)"
  by code_simp

end
